theory Spec2Isabelle
  imports Complex_Main "HOL-Library.Multiset" "HOL-Library.Sublist"
begin

section \<open>JavaScript numbers\<close>

text \<open>
  The numbers of \<^verbatim>\<open>src/App.js\<close> are IEEE doubles. A finite double is modelled by the real
  number it stands for, and the three special values that a division can produce are kept:
  \<open>PInf\<close> (\<^verbatim>\<open>Infinity\<close>), \<open>NInf\<close> (\<^verbatim>\<open>-Infinity\<close>) and \<open>NaN\<close>. Rounding is not modelled: the
  arithmetic on finite values is exact. Image dimensions are pixel counts (naturals), so no
  operand of the layout computation is negative and every zero is \<^verbatim>\<open>+0\<close>; the sign of zero is
  therefore not modelled and a zero divisor is read as \<^verbatim>\<open>+0\<close>.
\<close>

datatype jsnum = Num real | PInf | NInf | NaN

text \<open>\<^verbatim>\<open>a / b\<close>\<close>

fun jdiv :: "jsnum \<Rightarrow> jsnum \<Rightarrow> jsnum" where
  "jdiv (Num a) (Num b) =
     (if b = 0 then (if a = 0 then NaN else if 0 < a then PInf else NInf)
      else Num (a / b))"
| "jdiv (Num a) PInf = Num 0"
| "jdiv (Num a) NInf = Num 0"
| "jdiv PInf (Num b) = (if 0 \<le> b then PInf else NInf)"
| "jdiv NInf (Num b) = (if 0 \<le> b then NInf else PInf)"
| "jdiv PInf PInf = NaN"
| "jdiv PInf NInf = NaN"
| "jdiv NInf PInf = NaN"
| "jdiv NInf NInf = NaN"
| "jdiv NaN b = NaN"
| "jdiv a NaN = NaN"

text \<open>\<^verbatim>\<open>a * b\<close>\<close>

fun jmul :: "jsnum \<Rightarrow> jsnum \<Rightarrow> jsnum" where
  "jmul (Num a) (Num b) = Num (a * b)"
| "jmul (Num a) PInf = (if a = 0 then NaN else if 0 < a then PInf else NInf)"
| "jmul (Num a) NInf = (if a = 0 then NaN else if 0 < a then NInf else PInf)"
| "jmul PInf (Num b) = (if b = 0 then NaN else if 0 < b then PInf else NInf)"
| "jmul NInf (Num b) = (if b = 0 then NaN else if 0 < b then NInf else PInf)"
| "jmul PInf PInf = PInf"
| "jmul PInf NInf = NInf"
| "jmul NInf PInf = NInf"
| "jmul NInf NInf = PInf"
| "jmul NaN b = NaN"
| "jmul a NaN = NaN"

text \<open>\<^verbatim>\<open>a - b\<close>\<close>

fun jsub :: "jsnum \<Rightarrow> jsnum \<Rightarrow> jsnum" where
  "jsub (Num a) (Num b) = Num (a - b)"
| "jsub (Num a) PInf = NInf"
| "jsub (Num a) NInf = PInf"
| "jsub PInf (Num b) = PInf"
| "jsub NInf (Num b) = NInf"
| "jsub PInf PInf = NaN"
| "jsub PInf NInf = PInf"
| "jsub NInf PInf = NInf"
| "jsub NInf NInf = NaN"
| "jsub NaN b = NaN"
| "jsub a NaN = NaN"

text \<open>\<^verbatim>\<open>a > b\<close>: false as soon as one side is \<^verbatim>\<open>NaN\<close>.\<close>

fun jgt :: "jsnum \<Rightarrow> jsnum \<Rightarrow> bool" where
  "jgt (Num a) (Num b) = (b < a)"
| "jgt (Num a) PInf = False"
| "jgt (Num a) NInf = True"
| "jgt PInf (Num b) = True"
| "jgt NInf (Num b) = False"
| "jgt PInf PInf = False"
| "jgt PInf NInf = True"
| "jgt NInf PInf = False"
| "jgt NInf NInf = False"
| "jgt NaN b = False"
| "jgt a NaN = False"

section \<open>The layout of one image on its page\<close>

text \<open>
  \<^verbatim>\<open>generatePDF\<close>, lines 157 to 160: the A4 page at 96 dpi.
\<close>

definition pageWidth :: jsnum where
  "pageWidth = Num 794"

definition pageHeight :: jsnum where
  "pageHeight = Num 1123"

definition maxImageWidth :: jsnum where
  "maxImageWidth = pageWidth"

definition maxImageHeight :: jsnum where
  "maxImageHeight = pageHeight"

text \<open>The four numbers that the page markup of one image is built from.\<close>

record geometry =
  imageWidth :: jsnum
  imageHeight :: jsnum
  leftPos :: jsnum
  topPos :: jsnum

text \<open>
  The body of the callback of \<^verbatim>\<open>imagesWithData.map\<close>, lines 163 to 180, as a function of
  \<^verbatim>\<open>img.width\<close> and \<^verbatim>\<open>img.height\<close>. Nothing is checked before the division.
\<close>

definition fit :: "nat \<Rightarrow> nat \<Rightarrow> geometry" where
  "fit img_width img_height =
     (let aspectRatio = jdiv (Num (real img_width)) (Num (real img_height));
          widthFirst = maxImageWidth;
          heightFirst = jdiv maxImageWidth aspectRatio;
          exceeds = jgt heightFirst maxImageHeight;
          imageHeight = (if exceeds then maxImageHeight else heightFirst);
          imageWidth = (if exceeds then jmul maxImageHeight aspectRatio else widthFirst)
      in \<lparr> imageWidth = imageWidth,
           imageHeight = imageHeight,
           leftPos = jdiv (jsub pageWidth imageWidth) (Num 2),
           topPos = jdiv (jsub pageHeight imageHeight) (Num 2) \<rparr>)"

section \<open>The image list and its handlers\<close>

text \<open>
  An entry of the \<^verbatim>\<open>images\<close> state, as \<^verbatim>\<open>pickImages\<close> builds it (lines 82 to 87). The field
  \<^verbatim>\<open>id\<close> is called \<open>img_id\<close> here. Width and height are the pixel counts the picker reports.
\<close>

record image =
  img_id :: string
  uri :: string
  width :: nat
  height :: nat

text \<open>
  \<^verbatim>\<open>removeImage\<close>, lines 95 to 97: the new list is \<^verbatim>\<open>prev.filter((img) => img.id !== id)\<close>.
\<close>

definition removeImage :: "string \<Rightarrow> image list \<Rightarrow> image list" where
  "removeImage ident prev = filter (\<lambda>img. img_id img \<noteq> ident) prev"

text \<open>
  The two reordering handlers read and write the array by index, and a JavaScript array
  answers an index outside its range: a read gives \<^verbatim>\<open>undefined\<close>, a write extends the array
  and leaves holes below the written index. A slot of an array is therefore an element,
  \<^verbatim>\<open>undefined\<close>, or a hole.
\<close>

datatype 'a slot = Elem 'a | Undefined | Hole

text \<open>\<^verbatim>\<open>[...images]\<close>: the iterator of an array gives \<^verbatim>\<open>undefined\<close> for a hole.\<close>

definition spread :: "'a slot list \<Rightarrow> 'a slot list" where
  "spread xs = map (\<lambda>s. case s of Hole \<Rightarrow> Undefined | _ \<Rightarrow> s) xs"

text \<open>\<^verbatim>\<open>xs[i]\<close> as an expression.\<close>

definition js_get :: "'a slot list \<Rightarrow> nat \<Rightarrow> 'a slot" where
  "js_get xs i =
     (if i < length xs then (case xs ! i of Hole \<Rightarrow> Undefined | s \<Rightarrow> s) else Undefined)"

text \<open>\<^verbatim>\<open>xs[i] = v\<close>.\<close>

definition js_set :: "'a slot list \<Rightarrow> nat \<Rightarrow> 'a slot \<Rightarrow> 'a slot list" where
  "js_set xs i v =
     (if i < length xs then xs[i := v] else xs @ replicate (i - length xs) Hole @ [v])"

text \<open>
  \<^verbatim>\<open>moveImageUp\<close>, lines 99 to 104. The result is the value of the \<^verbatim>\<open>images\<close> state after the
  call: the state itself when the handler returns early, the array given to \<^verbatim>\<open>setImages\<close>
  otherwise. The destructuring assignment evaluates its right-hand side first, then assigns
  from left to right. The index is the position of a rendered card, a natural number.
\<close>

definition moveImageUp :: "nat \<Rightarrow> 'a slot list \<Rightarrow> 'a slot list" where
  "moveImageUp index images =
     (if index = 0 then images
      else
        (let newImages = spread images;
             fst_rhs = js_get newImages index;
             snd_rhs = js_get newImages (index - 1);
             newImages = js_set newImages (index - 1) fst_rhs;
             newImages = js_set newImages index snd_rhs
         in newImages))"

text \<open>
  \<^verbatim>\<open>moveImageDown\<close>, lines 106 to 111. \<^verbatim>\<open>images.length - 1\<close> is \<^verbatim>\<open>-1\<close> on the empty array, so
  the comparison is made on integers.
\<close>

definition moveImageDown :: "nat \<Rightarrow> 'a slot list \<Rightarrow> 'a slot list" where
  "moveImageDown index images =
     (if int index = int (length images) - 1 then images
      else
        (let newImages = spread images;
             fst_rhs = js_get newImages (index + 1);
             snd_rhs = js_get newImages index;
             newImages = js_set newImages index fst_rhs;
             newImages = js_set newImages (index + 1) snd_rhs
         in newImages))"

text \<open>
  What the text of the specification asks of \<open>remove\<close>: the first entry with the identifier
  goes, the others stay.
\<close>

fun remove_first_spec :: "string \<Rightarrow> image list \<Rightarrow> image list" where
  "remove_first_spec ident [] = []"
| "remove_first_spec ident (img # imgs) =
     (if img_id img = ident then imgs else img # remove_first_spec ident imgs)"

section \<open>Generating the document\<close>

subsection \<open>Strings\<close>

text \<open>\<^verbatim>\<open>${index + 1}\<close>: a natural number in decimal.\<close>

fun showNat :: "nat \<Rightarrow> string" where
  "showNat n =
     (if n < 10 then [char_of (48 + n)]
      else showNat (n div 10) @ [char_of (48 + n mod 10)])"

declare showNat.simps [simp del]

text \<open>
  \<^verbatim>\<open>toLowerCase\<close> on the letters A to Z; a locator is taken to have no other upper-case
  letters.
\<close>

definition toLowerCase :: "string \<Rightarrow> string" where
  "toLowerCase s =
     map (\<lambda>c. if 65 \<le> (of_char c :: nat) \<and> (of_char c :: nat) \<le> 90
               then char_of ((of_char c :: nat) + 32) else c) s"

text \<open>\<^verbatim>\<open>s.includes(p)\<close>\<close>

fun js_includes :: "string \<Rightarrow> string \<Rightarrow> bool" where
  "js_includes [] p = (p = [])"
| "js_includes (c # cs) p = (take (length p) (c # cs) = p \<or> js_includes cs p)"

text \<open>Lines 136 to 139.\<close>

definition mimeType :: "string \<Rightarrow> string" where
  "mimeType img_uri =
     (if js_includes (toLowerCase img_uri) ''.png'' \<or> js_includes (toLowerCase img_uri) ''png''
      then ''image/png'' else ''image/jpeg'')"

subsection \<open>The world outside\<close>

text \<open>
  The calls to Expo are effects; \<^verbatim>\<open>generatePDF\<close> is modelled by the list of effects it has, in
  order (the calls to \<^verbatim>\<open>console\<close> are left out). A page of the document is the record of the
  values that the template of lines 182 to 190 interpolates; the markup around them is
  constant text, and \<^verbatim>\<open>html\<close> is the concatenation of the pages inside a constant frame.
\<close>

record page =
  pageBreak :: string
  src :: string
  box :: geometry

datatype effect =
    Alert string string
  | SetIsGenerating bool
  | ReadAsStringAsync string
  | PrintToFileAsync "page list"
  | IsAvailableAsync
  | ShareAsync string "string option"

datatype platform = Android | IOS | OtherOS

text \<open>
  What the outside answers. A rejected promise is \<open>Inl\<close> of the \<^verbatim>\<open>message\<close> of its error.
  \<open>settleTime i\<close> is the moment at which the read of the image at position \<open>i\<close> settles:
  \<^verbatim>\<open>Promise.all\<close> rejects with the rejection that comes first in time.
\<close>

record env =
  readAsStringAsync :: "string \<Rightarrow> string + string"
  settleTime :: "nat \<Rightarrow> nat"
  printToFileAsync :: "page list \<Rightarrow> string + string"
  platformOS :: platform
  isAvailableAsync :: "string + bool"
  shareAsync :: "string \<Rightarrow> string + unit"

subsection \<open>Encoding\<close>

record imageWithData = image +
  dataUri :: string

text \<open>
  The asynchronous callback of \<^verbatim>\<open>images.map\<close>, lines 124 to 149: the promise it returns is
  fulfilled with the image and its data URI, or rejected with the error of line 147.
\<close>

definition encodeImage :: "env \<Rightarrow> nat \<Rightarrow> image \<Rightarrow> string + imageWithData" where
  "encodeImage e index img =
     (case readAsStringAsync e (uri img) of
        Inl message \<Rightarrow>
          Inl (''Failed to process image '' @ showNat (index + 1) @ '': '' @ message)
      | Inr base64 \<Rightarrow>
          Inr \<lparr> img_id = img_id img, uri = uri img, width = width img, height = height img,
                dataUri = ''data:'' @ mimeType (uri img) @ '';base64,'' @ base64 \<rparr>)"

text \<open>The rejected promises of an array of settled promises, with their positions.\<close>

fun rejections :: "nat \<Rightarrow> ('e + 'a) list \<Rightarrow> (nat \<times> 'e) list" where
  "rejections i [] = []"
| "rejections i (Inl err # ps) = (i, err) # rejections (i + 1) ps"
| "rejections i (Inr v # ps) = rejections (i + 1) ps"

text \<open>The values of the fulfilled promises, in the order of the array.\<close>

fun fulfilled :: "('e + 'a) list \<Rightarrow> 'a list" where
  "fulfilled [] = []"
| "fulfilled (Inl err # ps) = fulfilled ps"
| "fulfilled (Inr v # ps) = v # fulfilled ps"

text \<open>The rejection that settles first; of two that settle together, the earlier position.\<close>

fun earliest :: "(nat \<Rightarrow> nat) \<Rightarrow> nat \<times> 'e \<Rightarrow> (nat \<times> 'e) list \<Rightarrow> nat \<times> 'e" where
  "earliest t best [] = best"
| "earliest t best (r # rs) = earliest t (if t (fst r) < t (fst best) then r else best) rs"

text \<open>\<^verbatim>\<open>await Promise.all(imageDataPromises)\<close>, line 152.\<close>

definition promiseAll :: "(nat \<Rightarrow> nat) \<Rightarrow> ('e + 'a) list \<Rightarrow> 'e + 'a list" where
  "promiseAll t ps =
     (case rejections 0 ps of
        [] \<Rightarrow> Inr (fulfilled ps)
      | r # rs \<Rightarrow> Inl (snd (earliest t r rs)))"

subsection \<open>Composing the pages\<close>

text \<open>
  The callback of \<^verbatim>\<open>imagesWithData.map\<close>, lines 162 to 191, for the image at \<open>index\<close> of an
  array of length \<open>len\<close>. \<^verbatim>\<open>imagesWithData.length - 1\<close> is computed on integers.
\<close>

definition composePage :: "nat \<Rightarrow> nat \<Rightarrow> imageWithData \<Rightarrow> page" where
  "composePage len index img =
     \<lparr> pageBreak = (if int index < int len - 1 then ''page-break-after: always;'' else ''''),
       src = dataUri img,
       box = fit (width img) (height img) \<rparr>"

text \<open>The pages that \<^verbatim>\<open>join('')\<close> concatenates into \<^verbatim>\<open>imageHTML\<close>.\<close>

definition imageHTML :: "imageWithData list \<Rightarrow> page list" where
  "imageHTML imagesWithData =
     map (\<lambda>(index, img). composePage (length imagesWithData) index img)
       (enumerate 0 imagesWithData)"

subsection \<open>Saving\<close>

text \<open>
  \<^verbatim>\<open>savePDFAndroid\<close> (lines 259 to 273) and \<^verbatim>\<open>savePDFiOS\<close> (lines 275 to 289) catch every
  error themselves; they differ in the title of the dialog.
\<close>

definition savePDF :: "string \<Rightarrow> env \<Rightarrow> string \<Rightarrow> effect list" where
  "savePDF dialogTitle e pdfUri =
     IsAvailableAsync #
     (case isAvailableAsync e of
        Inl message \<Rightarrow> [Alert ''Error'' (''Failed to save PDF: '' @ message)]
      | Inr False \<Rightarrow> [Alert ''Error'' ''Sharing is not available on this device.'']
      | Inr True \<Rightarrow>
          ShareAsync pdfUri (Some dialogTitle) #
          (case shareAsync e pdfUri of
             Inl message \<Rightarrow> [Alert ''Error'' (''Failed to save PDF: '' @ message)]
           | Inr u \<Rightarrow> []))"

definition savePDFAndroid :: "env \<Rightarrow> string \<Rightarrow> effect list" where
  "savePDFAndroid = savePDF ''Save PDF''"

definition savePDFiOS :: "env \<Rightarrow> string \<Rightarrow> effect list" where
  "savePDFiOS = savePDF ''Save PDF to Files''"

text \<open>
  Lines 239 to 248: the effects of saving, and the error that escapes to the \<^verbatim>\<open>catch\<close> of
  \<^verbatim>\<open>generatePDF\<close>, if one does (only the fallback branch lets one escape).
\<close>

definition saveByPlatform :: "env \<Rightarrow> string \<Rightarrow> effect list \<times> string option" where
  "saveByPlatform e pdfUri =
     (case platformOS e of
        Android \<Rightarrow> (savePDFAndroid e pdfUri, None)
      | IOS \<Rightarrow> (savePDFiOS e pdfUri, None)
      | OtherOS \<Rightarrow>
          (case isAvailableAsync e of
             Inl message \<Rightarrow> ([IsAvailableAsync], Some message)
           | Inr False \<Rightarrow> ([IsAvailableAsync], None)
           | Inr True \<Rightarrow>
               ([IsAvailableAsync, ShareAsync pdfUri None],
                case shareAsync e pdfUri of Inl message \<Rightarrow> Some message | Inr u \<Rightarrow> None)))"

subsection \<open>The pipeline\<close>

text \<open>
  The \<^verbatim>\<open>try\<close> block of \<^verbatim>\<open>generatePDF\<close> with its \<^verbatim>\<open>catch\<close>, lines 121 to 253. Every callback of
  \<^verbatim>\<open>images.map\<close> runs up to its read before \<^verbatim>\<open>Promise.all\<close> is awaited, so all reads are started,
  in the order of the list.
\<close>

definition tryGenerate :: "env \<Rightarrow> image list \<Rightarrow> effect list" where
  "tryGenerate e images =
     map (\<lambda>img. ReadAsStringAsync (uri img)) images @
     (case promiseAll (settleTime e)
             (map (\<lambda>(index, img). encodeImage e index img) (enumerate 0 images)) of
        Inl message \<Rightarrow> [Alert ''Error'' (''Failed to generate PDF: '' @ message)]
      | Inr imagesWithData \<Rightarrow>
          PrintToFileAsync (imageHTML imagesWithData) #
          (case printToFileAsync e (imageHTML imagesWithData) of
             Inl message \<Rightarrow> [Alert ''Error'' (''Failed to generate PDF: '' @ message)]
           | Inr pdfUri \<Rightarrow>
               (case saveByPlatform e pdfUri of
                  (effects, Some message) \<Rightarrow>
                    effects @ [Alert ''Error'' (''Failed to generate PDF: '' @ message)]
                | (effects, None) \<Rightarrow>
                    effects @ [Alert ''Success'' ''PDF generated successfully!''])))"

text \<open>\<^verbatim>\<open>generatePDF\<close>, lines 113 to 257, called when the state holds \<open>images\<close>.\<close>

definition generatePDF :: "env \<Rightarrow> image list \<Rightarrow> effect list" where
  "generatePDF e images =
     (if length images = 0
      then [Alert ''No Images'' ''Please select at least one image to convert to PDF.'']
      else [SetIsGenerating True] @ tryGenerate e images @ [SetIsGenerating False])"

subsection \<open>The session\<close>

text \<open>
  The two pieces of state of \<^verbatim>\<open>App\<close> that generation touches (lines 22 and 23), and a
  counter, not in the source, of the calls of \<^verbatim>\<open>generatePDF\<close> that have passed line 119 and
  have not yet reached the \<^verbatim>\<open>finally\<close> of line 255.
\<close>

record session =
  images :: "image list"
  isGenerating :: bool
  running :: nat

text \<open>
  \<^verbatim>\<open>generatePDF\<close> up to its first \<^verbatim>\<open>await\<close>, lines 113 to 119. \<^verbatim>\<open>isGenerating\<close> is not read.
\<close>

definition generatePDF_enter :: "session \<Rightarrow> session" where
  "generatePDF_enter s =
     (if length (images s) = 0 then s
      else s\<lparr>isGenerating := True, running := running s + 1\<rparr>)"

text \<open>The \<^verbatim>\<open>finally\<close> block, line 255, of a call that had passed line 119.\<close>

definition generatePDF_leave :: "session \<Rightarrow> session" where
  "generatePDF_leave s = s\<lparr>isGenerating := False, running := running s - 1\<rparr>"

text \<open>
  The button of lines 414 to 432: rendered when there is an image, with
  \<^verbatim>\<open>disabled={isGenerating}\<close>.
\<close>

datatype button = NotRendered | Disabled | Enabled

definition generateButton :: "session \<Rightarrow> button" where
  "generateButton s =
     (if 0 < length (images s) then (if isGenerating s then Disabled else Enabled)
      else NotRendered)"

text \<open>
  What can happen to a session through the interface: the button is pressed (a press reaches
  \<^verbatim>\<open>onPress\<close> only when the button is rendered and not disabled), a call in flight reaches its
  \<^verbatim>\<open>finally\<close>, or a handler of the list sets a new list. The interface is taken to be rendered
  again between two events.
\<close>

datatype event = PressGenerate | RunSettles | SetImages "image list"

fun step :: "session \<Rightarrow> event \<Rightarrow> session" where
  "step s PressGenerate = (if generateButton s = Enabled then generatePDF_enter s else s)"
| "step s RunSettles = (if 0 < running s then generatePDF_leave s else s)"
| "step s (SetImages imgs) = s\<lparr>images := imgs\<rparr>"

definition initial :: session where
  "initial = \<lparr> images = [], isGenerating = False, running = 0 \<rparr>"

subsection \<open>Fixtures\<close>

text \<open>A world in which every read and the printing succeed and sharing is not available.\<close>

definition quiet_env :: env where
  "quiet_env =
     \<lparr> readAsStringAsync = (\<lambda>u. Inr ''QUJD''),
       settleTime = (\<lambda>i. i),
       printToFileAsync = (\<lambda>doc. Inr ''out.pdf''),
       platformOS = OtherOS,
       isAvailableAsync = Inr False,
       shareAsync = (\<lambda>u. Inr ()) \<rparr>"

text \<open>A world in which the file \<^verbatim>\<open>b.jpg\<close> cannot be read.\<close>

definition broken_env :: env where
  "broken_env =
     quiet_env\<lparr> readAsStringAsync :=
       (\<lambda>u. if u = ''b.jpg'' then Inl ''no such file'' else Inr ''QUJD'') \<rparr>"

definition encoded :: "string \<Rightarrow> nat \<Rightarrow> nat \<Rightarrow> imageWithData" where
  "encoded u w h =
     \<lparr> img_id = ''1-0'', uri = u, width = w, height = h,
       dataUri = ''data:image/jpeg;base64,QUJD'' \<rparr>"

definition photo :: "string \<Rightarrow> string \<Rightarrow> nat \<Rightarrow> nat \<Rightarrow> image" where
  "photo i u w h = \<lparr> img_id = i, uri = u, width = w, height = h \<rparr>"

section \<open>Properties of the layout\<close>

text \<open>On positive dimensions the quotient is an ordinary positive number.\<close>

lemma fit_width_first:
  assumes "0 < w" "0 < h" "794 * real h \<le> 1123 * real w"
  shows "fit w h =
    \<lparr> imageWidth = Num 794,
      imageHeight = Num (794 * real h / real w),
      leftPos = Num 0,
      topPos = Num ((1123 - 794 * real h / real w) / 2) \<rparr>"
proof -
  have "794 * real h / real w \<le> 1123"
    using assms by (simp add: pos_divide_le_eq)
  then show ?thesis
    using assms
    by (simp add: fit_def Let_def pageWidth_def pageHeight_def maxImageWidth_def
        maxImageHeight_def not_less [symmetric])
qed

lemma fit_height_first:
  assumes "0 < w" "0 < h" "1123 * real w < 794 * real h"
  shows "fit w h =
    \<lparr> imageWidth = Num (1123 * real w / real h),
      imageHeight = Num 1123,
      leftPos = Num ((794 - 1123 * real w / real h) / 2),
      topPos = Num 0 \<rparr>"
proof -
  have "1123 < 794 * real h / real w"
    using assms by (simp add: pos_less_divide_eq)
  then show ?thesis
    using assms
    by (simp add: fit_def Let_def pageWidth_def pageHeight_def maxImageWidth_def
        maxImageHeight_def)
qed

lemma twice_half: "(a - r) / 2 * 2 + r = (a::real)"
  by (simp add: field_simps)

text \<open>
  C1. For an image of positive width and height, on the page of 794 by 1123, the rendered
  width and height are finite and positive, the width is at most 794 and the height at most
  1123, their quotient is the quotient of the image's width and height, and the width is 794
  or the height is 1123 (one of the two candidates is taken as it is).
\<close>

theorem fit_within_page_keeps_ratio:
  assumes "0 < w" "0 < h"
  shows "\<exists>rw rh. imageWidth (fit w h) = Num rw \<and> imageHeight (fit w h) = Num rh
           \<and> 0 < rw \<and> 0 < rh \<and> rw \<le> 794 \<and> rh \<le> 1123
           \<and> rw / rh = real w / real h
           \<and> (rw = 794 \<and> rh = 794 * real h / real w
                \<or> rh = 1123 \<and> rw = 1123 * real w / real h)
           \<and> (imageWidth (fit w h) = pageWidth \<or> imageHeight (fit w h) = pageHeight)"
proof (cases "794 * real h \<le> 1123 * real w")
  case True
  let ?rh = "794 * real h / real w"
  have fit: "imageWidth (fit w h) = Num 794" "imageHeight (fit w h) = Num ?rh"
    using fit_width_first [OF assms True] by simp_all
  have pos: "0 < ?rh"
    using assms by simp
  have le: "?rh \<le> 1123"
    using assms True by (simp add: pos_divide_le_eq)
  have ratio: "794 / ?rh = real w / real h"
    using assms by simp
  show ?thesis
    using fit pos le ratio by (simp add: pageWidth_def)
next
  case False
  then have less: "1123 * real w < 794 * real h"
    by simp
  let ?rw = "1123 * real w / real h"
  have fit: "imageWidth (fit w h) = Num ?rw" "imageHeight (fit w h) = Num 1123"
    using fit_height_first [OF assms less] by simp_all
  have pos: "0 < ?rw"
    using assms by simp
  have le: "?rw \<le> 794"
    using assms less by (simp add: pos_divide_le_eq)
  have ratio: "?rw / 1123 = real w / real h"
    by simp
  show ?thesis
    using fit pos le ratio by (simp add: pageHeight_def)
qed

theorem fit_within_page_keeps_ratio_witness:
  "(0::nat) < 800 \<and> (0::nat) < 600
   \<and> (\<exists>rw rh. imageWidth (fit 800 600) = Num rw \<and> imageHeight (fit 800 600) = Num rh
           \<and> 0 < rw \<and> 0 < rh \<and> rw \<le> 794 \<and> rh \<le> 1123
           \<and> rw / rh = real 800 / real 600
           \<and> (rw = 794 \<and> rh = 794 * real 600 / real 800
                \<or> rh = 1123 \<and> rw = 1123 * real 800 / real 600)
           \<and> (imageWidth (fit 800 600) = pageWidth \<or> imageHeight (fit 800 600) = pageHeight))"
proof -
  have w: "(0::nat) < 800" and h: "(0::nat) < 600"
    by simp_all
  show ?thesis
    using w h fit_within_page_keeps_ratio [OF w h] by blast
qed

lemma fit_zero_height:
  "fit w 0 =
     (if w = 0
      then \<lparr> imageWidth = Num 794, imageHeight = NaN, leftPos = Num 0, topPos = NaN \<rparr>
      else \<lparr> imageWidth = Num 794, imageHeight = Num 0, leftPos = Num 0,
             topPos = Num (1123 / 2) \<rparr>)"
  by (simp add: fit_def Let_def pageWidth_def pageHeight_def maxImageWidth_def
      maxImageHeight_def)

lemma fit_zero_width:
  "0 < h \<Longrightarrow> fit 0 h =
     \<lparr> imageWidth = Num 0, imageHeight = Num 1123, leftPos = Num 397, topPos = Num 0 \<rparr>"
  by (simp add: fit_def Let_def pageWidth_def pageHeight_def maxImageWidth_def
      maxImageHeight_def)

lemma fit_offsets:
  "leftPos (fit w h) = jdiv (jsub pageWidth (imageWidth (fit w h))) (Num 2)
   \<and> topPos (fit w h) = jdiv (jsub pageHeight (imageHeight (fit w h))) (Num 2)"
  by (simp add: fit_def Let_def)

lemma fit_centres_positive:
  assumes "0 < w" "0 < h"
  shows "\<exists>rw rh ox oy.
           imageWidth (fit w h) = Num rw \<and> imageHeight (fit w h) = Num rh
           \<and> leftPos (fit w h) = Num ox \<and> topPos (fit w h) = Num oy
           \<and> ox = (794 - rw) / 2 \<and> oy = (1123 - rh) / 2
           \<and> 0 \<le> ox \<and> 0 \<le> oy
           \<and> ox * 2 + rw = 794 \<and> oy * 2 + rh = 1123"
proof (cases "794 * real h \<le> 1123 * real w")
  case True
  let ?rh = "794 * real h / real w"
  have le: "?rh \<le> 1123"
    using assms True by (simp add: pos_divide_le_eq)
  have fields: "imageWidth (fit w h) = Num 794" "imageHeight (fit w h) = Num ?rh"
      "leftPos (fit w h) = Num 0" "topPos (fit w h) = Num ((1123 - ?rh) / 2)"
    using fit_width_first [OF assms True] by simp_all
  have x: "(0::real) = (794 - 794) / 2" "(0::real) \<le> 0" "(0::real) * 2 + 794 = 794"
    by simp_all
  have y: "0 \<le> (1123 - ?rh) / 2"
    using le by simp
  show ?thesis
    using fields x y twice_half [of 1123 ?rh] by blast
next
  case False
  then have less: "1123 * real w < 794 * real h"
    by simp
  let ?rw = "1123 * real w / real h"
  have le: "?rw \<le> 794"
    using assms less by (simp add: pos_divide_le_eq)
  have fields: "imageWidth (fit w h) = Num ?rw" "imageHeight (fit w h) = Num 1123"
      "leftPos (fit w h) = Num ((794 - ?rw) / 2)" "topPos (fit w h) = Num 0"
    using fit_height_first [OF assms less] by simp_all
  have y: "(0::real) = (1123 - 1123) / 2" "(0::real) \<le> 0" "(0::real) * 2 + 1123 = 1123"
    by simp_all
  have x: "0 \<le> (794 - ?rw) / 2"
    using le by simp
  show ?thesis
    using fields x y twice_half [of 794 ?rw] by blast
qed

lemma fit_centres_flat:
  assumes "0 < w"
  shows "\<exists>rw rh ox oy.
           imageWidth (fit w 0) = Num rw \<and> imageHeight (fit w 0) = Num rh
           \<and> leftPos (fit w 0) = Num ox \<and> topPos (fit w 0) = Num oy
           \<and> ox = (794 - rw) / 2 \<and> oy = (1123 - rh) / 2
           \<and> 0 \<le> ox \<and> 0 \<le> oy
           \<and> ox * 2 + rw = 794 \<and> oy * 2 + rh = 1123"
proof -
  have fields: "imageWidth (fit w 0) = Num 794" "imageHeight (fit w 0) = Num 0"
      "leftPos (fit w 0) = Num 0" "topPos (fit w 0) = Num (1123 / 2)"
    using assms by (simp_all add: fit_zero_height)
  have nums: "(0::real) = (794 - 794) / 2" "(1123::real) / 2 = (1123 - 0) / 2"
      "(0::real) \<le> 0" "(0::real) \<le> 1123 / 2"
      "(0::real) * 2 + 794 = 794" "(1123::real) / 2 * 2 + 0 = 1123"
    by simp_all
  show ?thesis
    using fields nums by blast
qed

lemma fit_centres_thin:
  assumes "0 < h"
  shows "\<exists>rw rh ox oy.
           imageWidth (fit 0 h) = Num rw \<and> imageHeight (fit 0 h) = Num rh
           \<and> leftPos (fit 0 h) = Num ox \<and> topPos (fit 0 h) = Num oy
           \<and> ox = (794 - rw) / 2 \<and> oy = (1123 - rh) / 2
           \<and> 0 \<le> ox \<and> 0 \<le> oy
           \<and> ox * 2 + rw = 794 \<and> oy * 2 + rh = 1123"
proof -
  have fields: "imageWidth (fit 0 h) = Num 0" "imageHeight (fit 0 h) = Num 1123"
      "leftPos (fit 0 h) = Num 397" "topPos (fit 0 h) = Num 0"
    using assms by (simp_all add: fit_zero_width)
  have nums: "(397::real) = (794 - 0) / 2" "(0::real) = (1123 - 1123) / 2"
      "(0::real) \<le> 397" "(0::real) \<le> 0"
      "(397::real) * 2 + 0 = 794" "(0::real) * 2 + 1123 = 1123"
    by simp_all
  show ?thesis
    using fields nums by blast
qed

text \<open>
  C4 fails as it is stated: for an image of width 0 and height 0 the layout gives a height
  and a vertical offset that are \<^verbatim>\<open>NaN\<close>, so the offset is not a number that is at least 0, and
  this layout is the one that is printed.
\<close>

theorem zero_by_zero_offset_counterexample:
  "imageHeight (fit 0 0) = NaN
   \<and> topPos (fit 0 0) = NaN
   \<and> jgt (Num 0) (topPos (fit 0 0)) = False
   \<and> jgt (topPos (fit 0 0)) (Num 0) = False
   \<and> topPos (fit 0 0) \<noteq> Num 0
   \<and> generatePDF quiet_env [photo ''1-0'' ''a.jpg'' 0 0] =
       [SetIsGenerating True, ReadAsStringAsync ''a.jpg'',
        PrintToFileAsync
          [\<lparr> pageBreak = [], src = ''data:image/jpeg;base64,QUJD'',
              box = \<lparr> imageWidth = Num 794, imageHeight = NaN, leftPos = Num 0,
                      topPos = NaN \<rparr> \<rparr>],
        IsAvailableAsync, Alert ''Success'' ''PDF generated successfully!'',
        SetIsGenerating False]"
proof -
  have mime: "mimeType ''a.jpg'' = ''image/jpeg''"
    by (simp add: mimeType_def toLowerCase_def)
  have "generatePDF quiet_env [photo ''1-0'' ''a.jpg'' 0 0] =
       [SetIsGenerating True, ReadAsStringAsync ''a.jpg'',
        PrintToFileAsync
          [\<lparr> pageBreak = [], src = ''data:image/jpeg;base64,QUJD'',
              box = fit 0 0 \<rparr>],
        IsAvailableAsync, Alert ''Success'' ''PDF generated successfully!'',
        SetIsGenerating False]"
    by (simp add: generatePDF_def tryGenerate_def promiseAll_def encodeImage_def mime
        quiet_env_def photo_def imageHTML_def composePage_def saveByPlatform_def)
  then show ?thesis
    by (simp add: fit_zero_height)
qed

text \<open>
  C4, amended. For every image the horizontal offset is computed as (794 - rendered width) / 2
  and the vertical offset as (1123 - rendered height) / 2. When the width and the height of
  the image are not both 0, the rendered size and the offsets are numbers, neither offset is
  negative, and twice the offset plus the rendered size is the page size on both axes. When
  both are 0, the horizontal offset is 0 and the rendered height and the vertical offset are
  \<^verbatim>\<open>NaN\<close>.
\<close>

theorem fit_centres_image:
  "leftPos (fit w h) = jdiv (jsub pageWidth (imageWidth (fit w h))) (Num 2)
   \<and> topPos (fit w h) = jdiv (jsub pageHeight (imageHeight (fit w h))) (Num 2)
   \<and> (0 < w \<or> 0 < h \<longrightarrow>
        (\<exists>rw rh ox oy.
           imageWidth (fit w h) = Num rw \<and> imageHeight (fit w h) = Num rh
           \<and> leftPos (fit w h) = Num ox \<and> topPos (fit w h) = Num oy
           \<and> ox = (794 - rw) / 2 \<and> oy = (1123 - rh) / 2
           \<and> 0 \<le> ox \<and> 0 \<le> oy
           \<and> ox * 2 + rw = 794 \<and> oy * 2 + rh = 1123))
   \<and> (w = 0 \<and> h = 0 \<longrightarrow>
        imageWidth (fit w h) = Num 794 \<and> leftPos (fit w h) = Num 0
        \<and> imageHeight (fit w h) = NaN \<and> topPos (fit w h) = NaN)"
proof -
  have centred: "0 < w \<or> 0 < h \<longrightarrow>
        (\<exists>rw rh ox oy.
           imageWidth (fit w h) = Num rw \<and> imageHeight (fit w h) = Num rh
           \<and> leftPos (fit w h) = Num ox \<and> topPos (fit w h) = Num oy
           \<and> ox = (794 - rw) / 2 \<and> oy = (1123 - rh) / 2
           \<and> 0 \<le> ox \<and> 0 \<le> oy
           \<and> ox * 2 + rw = 794 \<and> oy * 2 + rh = 1123)"
  proof
    assume some: "0 < w \<or> 0 < h"
    show "\<exists>rw rh ox oy.
           imageWidth (fit w h) = Num rw \<and> imageHeight (fit w h) = Num rh
           \<and> leftPos (fit w h) = Num ox \<and> topPos (fit w h) = Num oy
           \<and> ox = (794 - rw) / 2 \<and> oy = (1123 - rh) / 2
           \<and> 0 \<le> ox \<and> 0 \<le> oy
           \<and> ox * 2 + rw = 794 \<and> oy * 2 + rh = 1123"
    proof (cases "0 < w")
      case True
      show ?thesis
      proof (cases "0 < h")
        case True
        with \<open>0 < w\<close> show ?thesis
          by (rule fit_centres_positive)
      next
        case False
        then have "h = 0"
          by simp
        then show ?thesis
          using fit_centres_flat [OF \<open>0 < w\<close>] by simp
      qed
    next
      case False
      then have "w = 0" and "0 < h"
        using some by simp_all
      then show ?thesis
        using fit_centres_thin [of h] by simp
    qed
  qed
  have both: "w = 0 \<and> h = 0 \<longrightarrow>
        imageWidth (fit w h) = Num 794 \<and> leftPos (fit w h) = Num 0
        \<and> imageHeight (fit w h) = NaN \<and> topPos (fit w h) = NaN"
    by (simp add: fit_zero_height)
  show ?thesis
    using fit_offsets [of w h] centred both by blast
qed

theorem fit_centres_image_witness:
  "((0::nat) < 800 \<or> (0::nat) < 0)
   \<and> (\<exists>rw rh ox oy.
           imageWidth (fit 800 0) = Num rw \<and> imageHeight (fit 800 0) = Num rh
           \<and> leftPos (fit 800 0) = Num ox \<and> topPos (fit 800 0) = Num oy
           \<and> ox = (794 - rw) / 2 \<and> oy = (1123 - rh) / 2
           \<and> 0 \<le> ox \<and> 0 \<le> oy
           \<and> ox * 2 + rw = 794 \<and> oy * 2 + rh = 1123)
   \<and> ((0::nat) < 800 \<or> (0::nat) < 600)
   \<and> (\<exists>rw rh ox oy.
           imageWidth (fit 800 600) = Num rw \<and> imageHeight (fit 800 600) = Num rh
           \<and> leftPos (fit 800 600) = Num ox \<and> topPos (fit 800 600) = Num oy
           \<and> ox = (794 - rw) / 2 \<and> oy = (1123 - rh) / 2
           \<and> 0 \<le> ox \<and> 0 \<le> oy
           \<and> ox * 2 + rw = 794 \<and> oy * 2 + rh = 1123)
   \<and> (0::nat) = 0
   \<and> imageWidth (fit 0 0) = Num 794 \<and> leftPos (fit 0 0) = Num 0
   \<and> imageHeight (fit 0 0) = NaN \<and> topPos (fit 0 0) = NaN"
proof -
  have flat: "(0::nat) < 800 \<or> (0::nat) < 0"
    by simp
  have usual: "(0::nat) < 800 \<or> (0::nat) < 600"
    by simp
  have none: "(0::nat) = 0 \<and> (0::nat) = 0"
    by simp
  show ?thesis
    using flat usual none fit_centres_image [of 800 0] fit_centres_image [of 800 600]
      fit_centres_image [of 0 0]
    by blast
qed

section \<open>Properties of the composed pages\<close>

lemma imageHTML_length: "length (imageHTML xs) = length xs"
  by (simp add: imageHTML_def)

lemma imageHTML_nth:
  "i < length xs \<Longrightarrow> imageHTML xs ! i = composePage (length xs) i (xs ! i)"
  by (simp add: imageHTML_def nth_enumerate_eq)

text \<open>
  C5. For a list of \<open>N\<close> encoded images there are \<open>N\<close> pages, in the order of the list: page
  \<open>i\<close> carries the data and the layout of image \<open>i\<close>, it is determined by \<open>N\<close>, \<open>i\<close> and that
  image alone, and it carries the page break exactly when \<open>i < N - 1\<close>. The pages are a
  function of the list (and of the constant page size), so equal lists give equal pages.
\<close>

theorem imageHTML_pages:
  "length (imageHTML xs) = length xs
   \<and> map src (imageHTML xs) = map dataUri xs
   \<and> (\<forall>i < length xs.
         imageHTML xs ! i = composePage (length xs) i (xs ! i)
         \<and> src (imageHTML xs ! i) = dataUri (xs ! i)
         \<and> box (imageHTML xs ! i) = fit (width (xs ! i)) (height (xs ! i))
         \<and> (pageBreak (imageHTML xs ! i) = ''page-break-after: always;''
              \<longleftrightarrow> int i < int (length xs) - 1)
         \<and> (pageBreak (imageHTML xs ! i) = '''' \<longleftrightarrow> \<not> int i < int (length xs) - 1))
   \<and> (\<forall>ys. ys = xs \<longrightarrow> imageHTML ys = imageHTML xs)"
proof -
  have len: "length (imageHTML xs) = length xs"
    by (rule imageHTML_length)
  have pages: "\<forall>i < length xs.
         imageHTML xs ! i = composePage (length xs) i (xs ! i)
         \<and> src (imageHTML xs ! i) = dataUri (xs ! i)
         \<and> box (imageHTML xs ! i) = fit (width (xs ! i)) (height (xs ! i))
         \<and> (pageBreak (imageHTML xs ! i) = ''page-break-after: always;''
              \<longleftrightarrow> int i < int (length xs) - 1)
         \<and> (pageBreak (imageHTML xs ! i) = '''' \<longleftrightarrow> \<not> int i < int (length xs) - 1)"
    by (simp add: imageHTML_nth composePage_def)
  have "map src (imageHTML xs) = map dataUri xs"
  proof (rule nth_equalityI)
    show "length (map src (imageHTML xs)) = length (map dataUri xs)"
      by (simp add: len)
  next
    fix i
    assume "i < length (map src (imageHTML xs))"
    then have "i < length xs"
      by (simp add: len)
    then show "map src (imageHTML xs) ! i = map dataUri xs ! i"
      by (simp add: len imageHTML_nth composePage_def)
  qed
  then show ?thesis
    using len pages by blast
qed

theorem imageHTML_pages_witness:
  "length (imageHTML [encoded ''a.jpg'' 800 600, encoded ''b.jpg'' 600 800]) = 2
   \<and> pageBreak (imageHTML [encoded ''a.jpg'' 800 600, encoded ''b.jpg'' 600 800] ! 0)
       = ''page-break-after: always;''
   \<and> pageBreak (imageHTML [encoded ''a.jpg'' 800 600, encoded ''b.jpg'' 600 800] ! 1) = ''''
   \<and> box (imageHTML [encoded ''a.jpg'' 800 600, encoded ''b.jpg'' 600 800] ! 1) = fit 600 800"
proof -
  let ?xs = "[encoded ''a.jpg'' 800 600, encoded ''b.jpg'' 600 800]"
  note pages = imageHTML_pages [of ?xs]
  have len: "length (imageHTML ?xs) = length ?xs"
    by (rule conjunct1 [OF pages])
  have each: "\<And>i. i < length ?xs \<Longrightarrow>
         box (imageHTML ?xs ! i) = fit (width (?xs ! i)) (height (?xs ! i))
         \<and> (pageBreak (imageHTML ?xs ! i) = ''page-break-after: always;''
              \<longleftrightarrow> int i < int (length ?xs) - 1)
         \<and> (pageBreak (imageHTML ?xs ! i) = '''' \<longleftrightarrow> \<not> int i < int (length ?xs) - 1)"
    using conjunct1 [OF conjunct2 [OF conjunct2 [OF pages]]] by blast
  have first: "pageBreak (imageHTML ?xs ! 0) = ''page-break-after: always;''"
    using each [of 0] by simp
  have second: "pageBreak (imageHTML ?xs ! 1) = ''''"
    using each [of 1] by simp
  have "box (imageHTML ?xs ! 1) = fit (width (?xs ! 1)) (height (?xs ! 1))"
    using each [of 1] by simp
  then have third: "box (imageHTML ?xs ! 1) = fit 600 800"
    by (simp add: encoded_def)
  show ?thesis
    using len first second third by simp
qed

section \<open>Properties of the handlers of the list\<close>

lemma spread_Elem: "spread (map Elem xs) = map Elem xs"
  by (simp add: spread_def)

lemma js_get_Elem: "i < length xs \<Longrightarrow> js_get (map Elem xs) i = Elem (xs ! i)"
  by (simp add: js_get_def)

lemma js_set_Elem:
  "i < length xs \<Longrightarrow> js_set (map Elem xs) i (Elem v) = map Elem (xs[i := v])"
  by (simp add: js_set_def map_update)

lemma moveImageUp_Elem:
  assumes "0 < i" "i < length xs"
  shows "moveImageUp i (map Elem xs) = map Elem (xs[i - 1 := xs ! i, i := xs ! (i - 1)])"
  using assms by (simp add: moveImageUp_def Let_def spread_Elem js_get_Elem js_set_Elem)

lemma moveImageDown_Elem:
  assumes "i + 1 < length xs"
  shows "moveImageDown i (map Elem xs) = map Elem (xs[i := xs ! (i + 1), i + 1 := xs ! i])"
proof -
  have "int i \<noteq> int (length xs) - 1"
    using assms by simp
  then show ?thesis
    using assms by (simp add: moveImageDown_def Let_def spread_Elem js_get_Elem js_set_Elem)
qed

lemma moveImageDown_last:
  assumes "arr \<noteq> []"
  shows "moveImageDown (length arr - 1) arr = arr"
proof -
  have "int (length arr - 1) = int (length arr) - 1"
    using assms by (cases arr) simp_all
  then show ?thesis
    by (simp add: moveImageDown_def)
qed

text \<open>
  C8. \<^verbatim>\<open>moveImageUp(0)\<close> leaves every array as it is, and so does \<^verbatim>\<open>moveImageDown\<close> at the last
  index of a non-empty array; neither handler has a statement that throws. On a list of
  images, \<^verbatim>\<open>moveImageUp(i)\<close> with \<open>0 < i < length\<close> exchanges the entries at \<open>i - 1\<close> and \<open>i\<close>,
  \<^verbatim>\<open>moveImageDown(k)\<close> with \<open>k + 1 < length\<close> exchanges the entries at \<open>k\<close> and \<open>k + 1\<close>, and all
  other entries stay where they are.
\<close>

theorem move_boundaries_and_swaps:
  "moveImageUp 0 arr = arr
   \<and> (arr \<noteq> [] \<longrightarrow> moveImageDown (length arr - 1) arr = arr)
   \<and> (0 < i \<and> i < length xs \<longrightarrow>
        (\<exists>ys. moveImageUp i (map Elem xs) = map Elem ys \<and> length ys = length xs
           \<and> ys ! (i - 1) = xs ! i \<and> ys ! i = xs ! (i - 1)
           \<and> (\<forall>j < length xs. j \<noteq> i \<and> j \<noteq> i - 1 \<longrightarrow> ys ! j = xs ! j)))
   \<and> (k + 1 < length xs \<longrightarrow>
        (\<exists>ys. moveImageDown k (map Elem xs) = map Elem ys \<and> length ys = length xs
           \<and> ys ! k = xs ! (k + 1) \<and> ys ! (k + 1) = xs ! k
           \<and> (\<forall>j < length xs. j \<noteq> k \<and> j \<noteq> k + 1 \<longrightarrow> ys ! j = xs ! j)))"
proof -
  have up0: "moveImageUp 0 arr = arr"
    by (simp add: moveImageUp_def)
  have down_last: "arr \<noteq> [] \<longrightarrow> moveImageDown (length arr - 1) arr = arr"
    using moveImageDown_last by blast
  have up: "0 < i \<and> i < length xs \<longrightarrow>
        (\<exists>ys. moveImageUp i (map Elem xs) = map Elem ys \<and> length ys = length xs
           \<and> ys ! (i - 1) = xs ! i \<and> ys ! i = xs ! (i - 1)
           \<and> (\<forall>j < length xs. j \<noteq> i \<and> j \<noteq> i - 1 \<longrightarrow> ys ! j = xs ! j))"
  proof
    assume range: "0 < i \<and> i < length xs"
    let ?ys = "xs[i - 1 := xs ! i, i := xs ! (i - 1)]"
    have "moveImageUp i (map Elem xs) = map Elem ?ys"
      using range by (simp add: moveImageUp_Elem)
    moreover have "length ?ys = length xs"
      by simp
    moreover have "?ys ! (i - 1) = xs ! i" "?ys ! i = xs ! (i - 1)"
      using range by (auto simp: nth_list_update)
    moreover have "\<forall>j < length xs. j \<noteq> i \<and> j \<noteq> i - 1 \<longrightarrow> ?ys ! j = xs ! j"
      by (simp add: nth_list_update)
    ultimately show "\<exists>ys. moveImageUp i (map Elem xs) = map Elem ys \<and> length ys = length xs
           \<and> ys ! (i - 1) = xs ! i \<and> ys ! i = xs ! (i - 1)
           \<and> (\<forall>j < length xs. j \<noteq> i \<and> j \<noteq> i - 1 \<longrightarrow> ys ! j = xs ! j)"
      by blast
  qed
  have down: "k + 1 < length xs \<longrightarrow>
        (\<exists>ys. moveImageDown k (map Elem xs) = map Elem ys \<and> length ys = length xs
           \<and> ys ! k = xs ! (k + 1) \<and> ys ! (k + 1) = xs ! k
           \<and> (\<forall>j < length xs. j \<noteq> k \<and> j \<noteq> k + 1 \<longrightarrow> ys ! j = xs ! j))"
  proof
    assume range: "k + 1 < length xs"
    let ?ys = "xs[k := xs ! (k + 1), k + 1 := xs ! k]"
    have "moveImageDown k (map Elem xs) = map Elem ?ys"
      using range by (rule moveImageDown_Elem)
    moreover have "length ?ys = length xs"
      by simp
    moreover have "?ys ! k = xs ! (k + 1)" "?ys ! (k + 1) = xs ! k"
      using range by (auto simp: nth_list_update)
    moreover have "\<forall>j < length xs. j \<noteq> k \<and> j \<noteq> k + 1 \<longrightarrow> ?ys ! j = xs ! j"
      by (simp add: nth_list_update)
    ultimately show "\<exists>ys. moveImageDown k (map Elem xs) = map Elem ys \<and> length ys = length xs
           \<and> ys ! k = xs ! (k + 1) \<and> ys ! (k + 1) = xs ! k
           \<and> (\<forall>j < length xs. j \<noteq> k \<and> j \<noteq> k + 1 \<longrightarrow> ys ! j = xs ! j)"
      by blast
  qed
  show ?thesis
    using up0 down_last up down by blast
qed

theorem move_boundaries_and_swaps_witness:
  "[Elem (10::nat), Elem 20, Elem 30] \<noteq> []
   \<and> (0::nat) < 1 \<and> 1 < length [10::nat, 20, 30] \<and> 1 + 1 < length [10::nat, 20, 30]
   \<and> moveImageUp 0 [Elem (10::nat), Elem 20, Elem 30] = [Elem 10, Elem 20, Elem 30]
   \<and> moveImageDown 2 [Elem (10::nat), Elem 20, Elem 30] = [Elem 10, Elem 20, Elem 30]
   \<and> moveImageUp 1 (map Elem [10::nat, 20, 30]) = map Elem [20, 10, 30]
   \<and> moveImageDown 1 (map Elem [10::nat, 20, 30]) = map Elem [10, 30, 20]"
proof -
  let ?arr = "[Elem (10::nat), Elem 20, Elem 30]"
  let ?xs = "[10::nat, 20, 30]"
  note t = move_boundaries_and_swaps [of ?arr 1 ?xs 1]
  have hyps: "?arr \<noteq> []" "(0::nat) < 1 \<and> 1 < length ?xs" "1 + 1 < length ?xs"
    by simp_all
  have up0: "moveImageUp 0 ?arr = ?arr"
    using t by blast
  have "moveImageDown (length ?arr - 1) ?arr = ?arr"
    using t hyps(1) by blast
  moreover have "length ?arr - 1 = 2"
    by simp
  ultimately have down_last: "moveImageDown 2 ?arr = ?arr"
    by (simp only:)
  obtain ys where ys: "moveImageUp 1 (map Elem ?xs) = map Elem ys" "length ys = length ?xs"
      "ys ! (1 - 1) = ?xs ! 1" "ys ! 1 = ?xs ! (1 - 1)"
      "\<forall>j < length ?xs. j \<noteq> 1 \<and> j \<noteq> 1 - 1 \<longrightarrow> ys ! j = ?xs ! j"
    using t hyps(2) by blast
  have "ys ! 2 = ?xs ! 2"
    using ys(5) by simp
  then have "ys = [20, 10, 30]"
    using ys(2,3,4) by (simp add: list_eq_iff_nth_eq less_Suc_eq numeral_3_eq_3 numeral_2_eq_2)
  then have up: "moveImageUp 1 (map Elem ?xs) = map Elem [20, 10, 30]"
    using ys(1) by simp
  obtain zs where zs: "moveImageDown 1 (map Elem ?xs) = map Elem zs" "length zs = length ?xs"
      "zs ! 1 = ?xs ! (1 + 1)" "zs ! (1 + 1) = ?xs ! 1"
      "\<forall>j < length ?xs. j \<noteq> 1 \<and> j \<noteq> 1 + 1 \<longrightarrow> zs ! j = ?xs ! j"
    using t hyps(3) by blast
  have "zs ! 0 = ?xs ! 0"
    using zs(5) by simp
  then have "zs = [10, 30, 20]"
    using zs(2,3,4) by (simp add: list_eq_iff_nth_eq less_Suc_eq numeral_3_eq_3 numeral_2_eq_2)
  then have down: "moveImageDown 1 (map Elem ?xs) = map Elem [10, 30, 20]"
    using zs(1) by simp
  show ?thesis
    using up0 down_last up down by simp
qed

text \<open>
  C10. On a list of images and an index \<open>i\<close> with \<open>0 < i < length\<close>, \<^verbatim>\<open>moveImageUp(i)\<close> followed by
  \<^verbatim>\<open>moveImageDown(i - 1)\<close> gives the list back, and each of the two calls keeps the multiset
  of the entries.
\<close>

theorem move_up_then_down_restores:
  assumes "0 < i" "i < length xs"
  shows "moveImageDown (i - 1) (moveImageUp i (map Elem xs)) = map Elem xs
     \<and> mset (moveImageUp i (map Elem xs)) = mset (map Elem xs)
     \<and> mset (moveImageDown (i - 1) (map Elem xs)) = mset (map Elem xs)"
proof -
  let ?ys = "xs[i - 1 := xs ! i, i := xs ! (i - 1)]"
  have up: "moveImageUp i (map Elem xs) = map Elem ?ys"
    using assms by (rule moveImageUp_Elem)
  have range: "i - 1 + 1 < length ?ys" "i - 1 + 1 < length xs" "i - 1 + 1 = i"
    using assms by simp_all
  have down: "moveImageDown (i - 1) (map Elem ?ys)
      = map Elem (?ys[i - 1 := ?ys ! (i - 1 + 1), i - 1 + 1 := ?ys ! (i - 1)])"
    using range(1) by (rule moveImageDown_Elem)
  have same: "?ys[i - 1 := ?ys ! (i - 1 + 1), i - 1 + 1 := ?ys ! (i - 1)] = xs"
    using assms by (simp add: list_eq_iff_nth_eq nth_list_update)
  have restore: "moveImageDown (i - 1) (moveImageUp i (map Elem xs)) = map Elem xs"
    using up down same by simp
  have "mset ?ys = mset xs"
    using assms mset_swap [of "i" xs "i - 1"] by simp
  then have mset_up: "mset (moveImageUp i (map Elem xs)) = mset (map Elem xs)"
    using up by simp
  have "moveImageDown (i - 1) (map Elem xs)
      = map Elem (xs[i - 1 := xs ! (i - 1 + 1), i - 1 + 1 := xs ! (i - 1)])"
    using range(2) by (rule moveImageDown_Elem)
  then have "moveImageDown (i - 1) (map Elem xs) = map Elem ?ys"
    using range(3) by simp
  then have mset_down: "mset (moveImageDown (i - 1) (map Elem xs)) = mset (map Elem xs)"
    using \<open>mset ?ys = mset xs\<close> by simp
  show ?thesis
    using restore mset_up mset_down by blast
qed

theorem move_up_then_down_restores_witness:
  "(0::nat) < 1 \<and> 1 < length [10::nat, 20, 30]
   \<and> moveImageDown (1 - 1) (moveImageUp 1 (map Elem [10::nat, 20, 30]))
       = map Elem [10, 20, 30]
   \<and> mset (moveImageUp 1 (map Elem [10::nat, 20, 30])) = mset (map Elem [10, 20, 30])
   \<and> mset (moveImageDown (1 - 1) (map Elem [10::nat, 20, 30])) = mset (map Elem [10, 20, 30])"
proof -
  have h: "(0::nat) < 1" "1 < length [10::nat, 20, 30]"
    by simp_all
  show ?thesis
    using h move_up_then_down_restores [OF h] by blast
qed

lemma removeImage_absent:
  "ident \<notin> img_id ` set xs \<Longrightarrow> removeImage ident xs = xs"
  by (induction xs) (auto simp: removeImage_def)

lemma removeImage_single_match:
  "length (filter (\<lambda>img. img_id img = ident) xs) \<le> 1 \<Longrightarrow>
     removeImage ident xs = remove_first_spec ident xs"
proof (induction xs)
  case Nil
  show ?case
    by (simp add: removeImage_def)
next
  case (Cons x xs)
  show ?case
  proof (cases "img_id x = ident")
    case True
    then have "filter (\<lambda>img. img_id img = ident) xs = []"
      using Cons.prems by simp
    then have "ident \<notin> img_id ` set xs"
      by (auto simp: filter_empty_conv)
    then have "removeImage ident xs = xs"
      by (rule removeImage_absent)
    then show ?thesis
      using True by (simp add: removeImage_def)
  next
    case False
    then have "length (filter (\<lambda>img. img_id img = ident) xs) \<le> 1"
      using Cons.prems by simp
    then have "removeImage ident xs = remove_first_spec ident xs"
      by (rule Cons.IH)
    then show ?thesis
      using False by (simp add: removeImage_def)
  qed
qed

lemma distinct_single_match:
  "distinct (map img_id xs) \<Longrightarrow> length (filter (\<lambda>img. img_id img = ident) xs) \<le> 1"
proof (induction xs)
  case Nil
  show ?case by simp
next
  case (Cons x xs)
  show ?case
  proof (cases "img_id x = ident")
    case True
    then have "ident \<notin> img_id ` set xs"
      using Cons.prems by auto
    then have "filter (\<lambda>img. img_id img = ident) xs = []"
      by (auto simp: filter_empty_conv)
    then show ?thesis
      using True by simp
  next
    case False
    then show ?thesis
      using Cons by simp
  qed
qed

text \<open>
  C9. On every list in which at most one entry has the identifier (so on every list whose
  identifiers are distinct), \<^verbatim>\<open>removeImage(id)\<close> gives what removing the first entry with that
  identifier gives. On every list, no entry with the identifier remains, the entries that
  remain are those with another identifier, in their order in the list, and the list is
  unchanged when no entry has the identifier.
\<close>

theorem removeImage_removes_the_match:
  "(length (filter (\<lambda>img. img_id img = ident) xs) \<le> 1 \<longrightarrow>
      removeImage ident xs = remove_first_spec ident xs)
   \<and> (distinct (map img_id xs) \<longrightarrow> removeImage ident xs = remove_first_spec ident xs)
   \<and> (\<forall>img \<in> set (removeImage ident xs). img_id img \<noteq> ident)
   \<and> mset (removeImage ident xs) = filter_mset (\<lambda>img. img_id img \<noteq> ident) (mset xs)
   \<and> subseq (removeImage ident xs) xs
   \<and> (ident \<notin> img_id ` set xs \<longrightarrow> removeImage ident xs = xs)"
proof -
  have single: "length (filter (\<lambda>img. img_id img = ident) xs) \<le> 1 \<longrightarrow>
      removeImage ident xs = remove_first_spec ident xs"
    using removeImage_single_match by blast
  have distinct_ids: "distinct (map img_id xs) \<longrightarrow>
      removeImage ident xs = remove_first_spec ident xs"
    using removeImage_single_match distinct_single_match by blast
  have gone: "\<forall>img \<in> set (removeImage ident xs). img_id img \<noteq> ident"
    by (simp add: removeImage_def)
  have kept: "mset (removeImage ident xs)
      = filter_mset (\<lambda>img. img_id img \<noteq> ident) (mset xs)"
    by (simp add: removeImage_def)
  have order: "subseq (removeImage ident xs) xs"
    by (simp add: removeImage_def)
  have absent: "ident \<notin> img_id ` set xs \<longrightarrow> removeImage ident xs = xs"
    using removeImage_absent by blast
  show ?thesis
    using single distinct_ids gone kept order absent by blast
qed

theorem removeImage_removes_the_match_witness:
  "length (filter (\<lambda>img. img_id img = ''7-0'')
      [photo ''7-0'' ''a.jpg'' 1 1, photo ''7-1'' ''b.jpg'' 1 1]) \<le> 1
   \<and> distinct (map img_id [photo ''7-0'' ''a.jpg'' 1 1, photo ''7-1'' ''b.jpg'' 1 1])
   \<and> ''7-2'' \<notin> img_id ` set [photo ''7-0'' ''a.jpg'' 1 1, photo ''7-1'' ''b.jpg'' 1 1]
   \<and> removeImage ''7-0'' [photo ''7-0'' ''a.jpg'' 1 1, photo ''7-1'' ''b.jpg'' 1 1]
       = [photo ''7-1'' ''b.jpg'' 1 1]
   \<and> removeImage ''7-2'' [photo ''7-0'' ''a.jpg'' 1 1, photo ''7-1'' ''b.jpg'' 1 1]
       = [photo ''7-0'' ''a.jpg'' 1 1, photo ''7-1'' ''b.jpg'' 1 1]"
proof -
  let ?xs = "[photo ''7-0'' ''a.jpg'' 1 1, photo ''7-1'' ''b.jpg'' 1 1]"
  have one: "length (filter (\<lambda>img. img_id img = ''7-0'') ?xs) \<le> 1"
    by (simp add: photo_def)
  have d: "distinct (map img_id ?xs)"
    by (simp add: photo_def)
  have a: "''7-2'' \<notin> img_id ` set ?xs"
    by (simp add: photo_def)
  have "removeImage ''7-0'' ?xs = remove_first_spec ''7-0'' ?xs"
    using one removeImage_removes_the_match [of "''7-0''" ?xs] by blast
  then have first: "removeImage ''7-0'' ?xs = [photo ''7-1'' ''b.jpg'' 1 1]"
    by (simp add: photo_def)
  have none: "removeImage ''7-2'' ?xs = ?xs"
    using a removeImage_removes_the_match [of "''7-2''" ?xs] by blast
  show ?thesis
    using one d a first none by blast
qed

section \<open>Properties of the pipeline\<close>

lemma rejections_none:
  "(\<forall>p \<in> set ps. \<exists>v. p = Inr v) \<Longrightarrow> rejections i ps = []"
  by (induction i ps rule: rejections.induct) auto

lemma fulfilled_all:
  "(\<forall>p \<in> set ps. \<exists>v. p = Inr v) \<Longrightarrow> map Inr (fulfilled ps) = ps"
  by (induction ps rule: fulfilled.induct) auto

lemma rejections_mem:
  "(k, err) \<in> set (rejections i ps) \<Longrightarrow> i \<le> k \<and> k - i < length ps \<and> ps ! (k - i) = Inl err"
proof (induction i ps rule: rejections.induct)
  case (1 i)
  then show ?case by simp
next
  case (2 i err' ps)
  show ?case
  proof (cases "(k, err) = (i, err')")
    case True
    then show ?thesis by simp
  next
    case False
    then have "(k, err) \<in> set (rejections (i + 1) ps)"
      using "2.prems" by auto
    then have ih: "i + 1 \<le> k \<and> k - (i + 1) < length ps \<and> ps ! (k - (i + 1)) = Inl err"
      by (rule "2.IH")
    then have "k - i = Suc (k - (i + 1))"
      by arith
    then show ?thesis
      using ih by simp
  qed
next
  case (3 i v ps)
  then have ih: "i + 1 \<le> k \<and> k - (i + 1) < length ps \<and> ps ! (k - (i + 1)) = Inl err"
    by simp
  then have "k - i = Suc (k - (i + 1))"
    by arith
  then show ?case
    using ih by simp
qed

lemma rejections_some:
  "Inl err \<in> set ps \<Longrightarrow> rejections i ps \<noteq> []"
  by (induction i ps rule: rejections.induct) auto

lemma earliest_mem: "earliest t best rs \<in> set (best # rs)"
  by (induction t best rs rule: earliest.induct) auto

lemma promiseAll_fulfilled:
  assumes "\<forall>p \<in> set ps. \<exists>v. p = Inr v"
  shows "promiseAll t ps = Inr (fulfilled ps)"
  using rejections_none [OF assms] by (simp add: promiseAll_def)

lemma promiseAll_rejected:
  assumes "Inl err \<in> set ps"
  shows "\<exists>k cause. k < length ps \<and> ps ! k = Inl cause \<and> promiseAll t ps = Inl cause"
proof -
  obtain r rs where rej: "rejections 0 ps = r # rs"
    using rejections_some [OF assms, of 0] by (cases "rejections 0 ps") auto
  have "earliest t r rs \<in> set (rejections 0 ps)"
    using earliest_mem [of t r rs] rej by simp
  then have "(fst (earliest t r rs), snd (earliest t r rs)) \<in> set (rejections 0 ps)"
    by simp
  then have "fst (earliest t r rs) < length ps
      \<and> ps ! fst (earliest t r rs) = Inl (snd (earliest t r rs))"
    using rejections_mem [of "fst (earliest t r rs)" "snd (earliest t r rs)" 0 ps] by simp
  moreover have "promiseAll t ps = Inl (snd (earliest t r rs))"
    using rej by (simp add: promiseAll_def)
  ultimately show ?thesis
    by blast
qed

lemma encoded_nth:
  "i < length imgs \<Longrightarrow>
     map (\<lambda>(index, img). encodeImage e index img) (enumerate 0 imgs) ! i
       = encodeImage e i (imgs ! i)"
  by (simp add: nth_enumerate_eq)

lemma encodeImage_Inl:
  "encodeImage e i img = Inl msg \<Longrightarrow>
     \<exists>cause. readAsStringAsync e (uri img) = Inl cause
       \<and> msg = ''Failed to process image '' @ showNat (i + 1) @ '': '' @ cause"
  by (auto simp: encodeImage_def split: sum.splits)

text \<open>
  C6. When the read of some image fails, the run ends in the failure alert and nothing else:
  every read is started, the alert names the position (counted from 1) of an image whose
  read failed and carries the message of that failure, the flag is cleared, and neither a
  document is printed nor success announced.
\<close>

theorem failed_read_fails_run:
  assumes "\<exists>i < length imgs. \<exists>cause. readAsStringAsync e (uri (imgs ! i)) = Inl cause"
  shows "\<exists>k cause. k < length imgs \<and> readAsStringAsync e (uri (imgs ! k)) = Inl cause
     \<and> generatePDF e imgs =
         [SetIsGenerating True] @ map (\<lambda>img. ReadAsStringAsync (uri img)) imgs @
         [Alert ''Error''
            (''Failed to generate PDF: '' @
             ''Failed to process image '' @ showNat (k + 1) @ '': '' @ cause),
          SetIsGenerating False]
     \<and> (\<forall>doc. PrintToFileAsync doc \<notin> set (generatePDF e imgs))
     \<and> Alert ''Success'' ''PDF generated successfully!'' \<notin> set (generatePDF e imgs)"
proof -
  let ?ps = "map (\<lambda>(index, img). encodeImage e index img) (enumerate 0 imgs)"
  obtain i cause0 where i: "i < length imgs"
      and "readAsStringAsync e (uri (imgs ! i)) = Inl cause0"
    using assms by blast
  then have "encodeImage e i (imgs ! i)
      = Inl (''Failed to process image '' @ showNat (i + 1) @ '': '' @ cause0)"
    by (simp add: encodeImage_def)
  then have "?ps ! i = Inl (''Failed to process image '' @ showNat (i + 1) @ '': '' @ cause0)"
    using i by (simp only: encoded_nth)
  moreover have "i < length ?ps"
    using i by simp
  ultimately have "Inl (''Failed to process image '' @ showNat (i + 1) @ '': '' @ cause0)
      \<in> set ?ps"
    by (metis nth_mem)
  then have "\<exists>k msg. k < length ?ps \<and> ?ps ! k = Inl msg
      \<and> promiseAll (settleTime e) ?ps = Inl msg"
    by (rule promiseAll_rejected)
  then obtain k msg where k: "k < length ?ps" and at: "?ps ! k = Inl msg"
      and all: "promiseAll (settleTime e) ?ps = Inl msg"
    by blast
  have k': "k < length imgs"
    using k by simp
  then have "encodeImage e k (imgs ! k) = Inl msg"
    using at by (simp only: encoded_nth)
  then obtain cause where cause: "readAsStringAsync e (uri (imgs ! k)) = Inl cause"
      and msg: "msg = ''Failed to process image '' @ showNat (k + 1) @ '': '' @ cause"
    using encodeImage_Inl by blast
  have nonempty: "length imgs \<noteq> 0"
    using i by auto
  have run: "generatePDF e imgs =
         [SetIsGenerating True] @ map (\<lambda>img. ReadAsStringAsync (uri img)) imgs @
         [Alert ''Error''
            (''Failed to generate PDF: '' @
             ''Failed to process image '' @ showNat (k + 1) @ '': '' @ cause),
          SetIsGenerating False]"
    using nonempty all msg by (simp add: generatePDF_def tryGenerate_def)
  have no_print: "\<forall>doc. PrintToFileAsync doc \<notin> set (generatePDF e imgs)"
    unfolding run by auto
  have no_success:
    "Alert ''Success'' ''PDF generated successfully!'' \<notin> set (generatePDF e imgs)"
    unfolding run by auto
  show ?thesis
    using k' cause run no_print no_success by blast
qed

theorem failed_read_fails_run_witness:
  "(\<exists>i < length [photo ''1-0'' ''a.jpg'' 800 600, photo ''1-1'' ''b.jpg'' 600 800].
      \<exists>cause. readAsStringAsync broken_env
        (uri ([photo ''1-0'' ''a.jpg'' 800 600, photo ''1-1'' ''b.jpg'' 600 800] ! i)) = Inl cause)
   \<and> generatePDF broken_env [photo ''1-0'' ''a.jpg'' 800 600, photo ''1-1'' ''b.jpg'' 600 800] =
       [SetIsGenerating True, ReadAsStringAsync ''a.jpg'', ReadAsStringAsync ''b.jpg'',
        Alert ''Error'' ''Failed to generate PDF: Failed to process image 2: no such file'',
        SetIsGenerating False]"
proof -
  let ?imgs = "[photo ''1-0'' ''a.jpg'' 800 600, photo ''1-1'' ''b.jpg'' 600 800]"
  have "1 < length ?imgs
      \<and> (\<exists>cause. readAsStringAsync broken_env (uri (?imgs ! 1)) = Inl cause)"
    by (simp add: broken_env_def quiet_env_def photo_def)
  then have hyp: "\<exists>i < length ?imgs.
      \<exists>cause. readAsStringAsync broken_env (uri (?imgs ! i)) = Inl cause"
    by (rule exI)
  obtain k cause where k: "k < length ?imgs"
      and c: "readAsStringAsync broken_env (uri (?imgs ! k)) = Inl cause"
      and run: "generatePDF broken_env ?imgs =
         [SetIsGenerating True] @ map (\<lambda>img. ReadAsStringAsync (uri img)) ?imgs @
         [Alert ''Error''
            (''Failed to generate PDF: '' @
             ''Failed to process image '' @ showNat (k + 1) @ '': '' @ cause),
          SetIsGenerating False]"
    using failed_read_fails_run [OF hyp] by blast
  have "k = 0 \<or> k = 1"
    using k by auto
  then have k1: "k = 1"
    using c by (auto simp: broken_env_def quiet_env_def photo_def)
  then have cause: "cause = ''no such file''"
    using c by (simp add: broken_env_def quiet_env_def photo_def)
  have two: "showNat (1 + 1) = ''2''"
    by code_simp
  have "generatePDF broken_env ?imgs =
       [SetIsGenerating True, ReadAsStringAsync ''a.jpg'', ReadAsStringAsync ''b.jpg'',
        Alert ''Error'' ''Failed to generate PDF: Failed to process image 2: no such file'',
        SetIsGenerating False]"
    unfolding run k1 cause two by (simp add: photo_def)
  then show ?thesis
    using hyp by blast
qed

lemma all_read_encoded:
  assumes "\<forall>img \<in> set imgs. \<exists>b. readAsStringAsync e (uri img) = Inr b"
  shows "\<exists>ys. promiseAll (settleTime e)
             (map (\<lambda>(index, img). encodeImage e index img) (enumerate 0 imgs)) = Inr ys
           \<and> length ys = length imgs
           \<and> (\<forall>i < length imgs. width (ys ! i) = width (imgs ! i)
                  \<and> height (ys ! i) = height (imgs ! i))"
proof -
  let ?ps = "map (\<lambda>(index, img). encodeImage e index img) (enumerate 0 imgs)"
  have ok: "\<forall>p \<in> set ?ps. \<exists>v. p = Inr v"
  proof
    fix p
    assume "p \<in> set ?ps"
    then obtain i where i: "i < length ?ps" and p: "p = ?ps ! i"
      by (metis in_set_conv_nth)
    have i': "i < length imgs"
      using i by simp
    then have "p = encodeImage e i (imgs ! i)"
      using p by (simp only: encoded_nth)
    moreover obtain b where "readAsStringAsync e (uri (imgs ! i)) = Inr b"
      using assms i' by (metis nth_mem)
    ultimately show "\<exists>v. p = Inr v"
      by (simp add: encodeImage_def)
  qed
  let ?ys = "fulfilled ?ps"
  have all: "promiseAll (settleTime e) ?ps = Inr ?ys"
    using ok by (rule promiseAll_fulfilled)
  have same: "map Inr ?ys = ?ps"
    using ok by (rule fulfilled_all)
  then have "length (map Inr ?ys :: (string + imageWithData) list) = length ?ps"
    by simp
  then have len: "length ?ys = length imgs"
    by simp
  have dims: "\<forall>i < length imgs. width (?ys ! i) = width (imgs ! i)
      \<and> height (?ys ! i) = height (imgs ! i)"
  proof (intro allI impI)
    fix i
    assume i: "i < length imgs"
    obtain b where b: "readAsStringAsync e (uri (imgs ! i)) = Inr b"
      using assms i by (metis nth_mem)
    have "(map Inr ?ys :: (string + imageWithData) list) ! i = ?ps ! i"
      using same by simp
    then have "Inr (?ys ! i) = encodeImage e i (imgs ! i)"
      using i len by (simp only: encoded_nth nth_map)
    then show "width (?ys ! i) = width (imgs ! i) \<and> height (?ys ! i) = height (imgs ! i)"
      using b by (simp add: encodeImage_def)
  qed
  show ?thesis
    using all len dims by blast
qed

text \<open>
  C2 fails as it is stated: an image of height 0 is laid out (and one of width and height
  0 gets a height and an offset that are \<^verbatim>\<open>NaN\<close>), and the run that holds it prints the document
  and announces success.
\<close>

theorem zero_height_counterexample:
  "fit 800 0 =
     \<lparr> imageWidth = Num 794, imageHeight = Num 0, leftPos = Num 0, topPos = Num (1123 / 2) \<rparr>
   \<and> fit 0 0 = \<lparr> imageWidth = Num 794, imageHeight = NaN, leftPos = Num 0, topPos = NaN \<rparr>
   \<and> generatePDF quiet_env [photo ''1-0'' ''a.jpg'' 800 0] =
       [SetIsGenerating True, ReadAsStringAsync ''a.jpg'',
        PrintToFileAsync
          [\<lparr> pageBreak = [], src = ''data:image/jpeg;base64,QUJD'',
              box = \<lparr> imageWidth = Num 794, imageHeight = Num 0, leftPos = Num 0,
                      topPos = Num (1123 / 2) \<rparr> \<rparr>],
        IsAvailableAsync, Alert ''Success'' ''PDF generated successfully!'',
        SetIsGenerating False]"
proof -
  have mime: "mimeType ''a.jpg'' = ''image/jpeg''"
    by (simp add: mimeType_def toLowerCase_def)
  have "generatePDF quiet_env [photo ''1-0'' ''a.jpg'' 800 0] =
       [SetIsGenerating True, ReadAsStringAsync ''a.jpg'',
        PrintToFileAsync
          [\<lparr> pageBreak = [], src = ''data:image/jpeg;base64,QUJD'',
              box = fit 800 0 \<rparr>],
        IsAvailableAsync, Alert ''Success'' ''PDF generated successfully!'',
        SetIsGenerating False]"
    by (simp add: generatePDF_def tryGenerate_def promiseAll_def encodeImage_def mime
        quiet_env_def photo_def imageHTML_def composePage_def saveByPlatform_def)
  then show ?thesis
    by (simp add: fit_zero_height)
qed

text \<open>
  C2, amended. An image of width or height 0 is not rejected. The layout divides and gives a
  result: 794 by 0 when only the height is 0, 0 by 1123 when only the width is 0, and a height
  and a vertical offset that are \<^verbatim>\<open>NaN\<close> when both are 0. A run on a non-empty list all of whose
  reads succeed hands the document to the printer whatever the dimensions of its images, one
  page for each image, laid out from the width and height of that image.
\<close>

theorem degenerate_image_reaches_rendering:
  "fit w 0 =
     (if w = 0
      then \<lparr> imageWidth = Num 794, imageHeight = NaN, leftPos = Num 0, topPos = NaN \<rparr>
      else \<lparr> imageWidth = Num 794, imageHeight = Num 0, leftPos = Num 0,
             topPos = Num (1123 / 2) \<rparr>)
   \<and> (0 < h \<longrightarrow> fit 0 h =
         \<lparr> imageWidth = Num 0, imageHeight = Num 1123, leftPos = Num 397, topPos = Num 0 \<rparr>)
   \<and> (imgs \<noteq> [] \<and> (\<forall>img \<in> set imgs. \<exists>b. readAsStringAsync e (uri img) = Inr b) \<longrightarrow>
        (\<exists>doc. PrintToFileAsync doc \<in> set (generatePDF e imgs)
           \<and> length doc = length imgs
           \<and> (\<forall>i < length imgs. box (doc ! i) = fit (width (imgs ! i)) (height (imgs ! i)))))"
proof -
  have render: "imgs \<noteq> [] \<and> (\<forall>img \<in> set imgs. \<exists>b. readAsStringAsync e (uri img) = Inr b) \<longrightarrow>
        (\<exists>doc. PrintToFileAsync doc \<in> set (generatePDF e imgs)
           \<and> length doc = length imgs
           \<and> (\<forall>i < length imgs. box (doc ! i) = fit (width (imgs ! i)) (height (imgs ! i))))"
  proof
    assume a: "imgs \<noteq> [] \<and> (\<forall>img \<in> set imgs. \<exists>b. readAsStringAsync e (uri img) = Inr b)"
    then obtain ys where all: "promiseAll (settleTime e)
             (map (\<lambda>(index, img). encodeImage e index img) (enumerate 0 imgs)) = Inr ys"
        and len: "length ys = length imgs"
        and dims: "\<forall>i < length imgs. width (ys ! i) = width (imgs ! i)
                  \<and> height (ys ! i) = height (imgs ! i)"
      using all_read_encoded [of imgs e] by blast
    have "PrintToFileAsync (imageHTML ys) \<in> set (tryGenerate e imgs)"
      using all by (simp add: tryGenerate_def)
    then have printed: "PrintToFileAsync (imageHTML ys) \<in> set (generatePDF e imgs)"
      using a by (simp add: generatePDF_def)
    have doc_len: "length (imageHTML ys) = length imgs"
      using len by (simp add: imageHTML_length)
    have "\<forall>i < length imgs.
        box (imageHTML ys ! i) = fit (width (imgs ! i)) (height (imgs ! i))"
      using len dims by (simp add: imageHTML_nth composePage_def)
    then show "\<exists>doc. PrintToFileAsync doc \<in> set (generatePDF e imgs)
           \<and> length doc = length imgs
           \<and> (\<forall>i < length imgs. box (doc ! i) = fit (width (imgs ! i)) (height (imgs ! i)))"
      using printed doc_len by blast
  qed
  show ?thesis
    using fit_zero_height fit_zero_width render by blast
qed

theorem degenerate_image_reaches_rendering_witness:
  "(0::nat) < 600
   \<and> [photo ''1-0'' ''a.jpg'' 800 0] \<noteq> []
   \<and> readAsStringAsync quiet_env (uri (photo ''1-0'' ''a.jpg'' 800 0)) = Inr ''QUJD''
   \<and> fit 800 0 =
       \<lparr> imageWidth = Num 794, imageHeight = Num 0, leftPos = Num 0, topPos = Num (1123 / 2) \<rparr>
   \<and> fit 0 600 =
       \<lparr> imageWidth = Num 0, imageHeight = Num 1123, leftPos = Num 397, topPos = Num 0 \<rparr>
   \<and> (\<exists>doc. PrintToFileAsync doc \<in> set (generatePDF quiet_env [photo ''1-0'' ''a.jpg'' 800 0])
         \<and> length doc = 1 \<and> box (doc ! 0) = fit 800 0)"
proof -
  let ?imgs = "[photo ''1-0'' ''a.jpg'' 800 0]"
  note t = degenerate_image_reaches_rendering [of 800 600 ?imgs quiet_env]
  have h: "(0::nat) < 600"
    by simp
  have hyp: "?imgs \<noteq> [] \<and> (\<forall>img \<in> set ?imgs. \<exists>b. readAsStringAsync quiet_env (uri img) = Inr b)"
    by (simp add: quiet_env_def)
  have "fit 800 0 =
     (if (800::nat) = 0
      then \<lparr> imageWidth = Num 794, imageHeight = NaN, leftPos = Num 0, topPos = NaN \<rparr>
      else \<lparr> imageWidth = Num 794, imageHeight = Num 0, leftPos = Num 0,
             topPos = Num (1123 / 2) \<rparr>)"
    using t by blast
  then have zero_height: "fit 800 0 =
       \<lparr> imageWidth = Num 794, imageHeight = Num 0, leftPos = Num 0, topPos = Num (1123 / 2) \<rparr>"
    by simp
  have zero_width: "fit 0 600 =
       \<lparr> imageWidth = Num 0, imageHeight = Num 1123, leftPos = Num 397, topPos = Num 0 \<rparr>"
    using t h by blast
  obtain doc where doc: "PrintToFileAsync doc \<in> set (generatePDF quiet_env ?imgs)"
      "length doc = length ?imgs"
      "\<forall>i < length ?imgs. box (doc ! i) = fit (width (?imgs ! i)) (height (?imgs ! i))"
    using t hyp by blast
  have "length doc = 1"
    using doc(2) by simp
  moreover have "box (doc ! 0) = fit 800 0"
    using doc(3) by (simp add: photo_def)
  ultimately have printed: "\<exists>doc. PrintToFileAsync doc \<in> set (generatePDF quiet_env ?imgs)
         \<and> length doc = 1 \<and> box (doc ! 0) = fit 800 0"
    using doc(1) by blast
  have read: "readAsStringAsync quiet_env (uri (photo ''1-0'' ''a.jpg'' 800 0)) = Inr ''QUJD''"
    by (simp add: quiet_env_def)
  have nonempty: "?imgs \<noteq> []"
    by simp
  show ?thesis
    using h nonempty read zero_height zero_width printed by blast
qed

text \<open>
  C7. On the empty list \<^verbatim>\<open>generatePDF\<close> shows the alert that asks for an image and does
  nothing else: the flag is not set, no read is started, nothing is printed and no failure
  is reported. The session is left as it was, and the button is not even rendered.
\<close>

theorem empty_list_starts_nothing:
  "generatePDF e [] =
     [Alert ''No Images'' ''Please select at least one image to convert to PDF.'']
   \<and> (\<forall>b. SetIsGenerating b \<notin> set (generatePDF e []))
   \<and> (\<forall>u. ReadAsStringAsync u \<notin> set (generatePDF e []))
   \<and> (\<forall>doc. PrintToFileAsync doc \<notin> set (generatePDF e []))
   \<and> (\<forall>msg. Alert ''Error'' msg \<notin> set (generatePDF e []))
   \<and> (images s = [] \<longrightarrow>
        generatePDF_enter s = s \<and> generateButton s = NotRendered \<and> step s PressGenerate = s)"
  by (simp add: generatePDF_def generatePDF_enter_def generateButton_def)

theorem empty_list_starts_nothing_witness:
  "images initial = []
   \<and> generatePDF quiet_env [] =
       [Alert ''No Images'' ''Please select at least one image to convert to PDF.'']
   \<and> generatePDF_enter initial = initial
   \<and> isGenerating (generatePDF_enter initial) = False
   \<and> running (generatePDF_enter initial) = 0"
proof -
  have empty: "images initial = []"
    by (simp add: initial_def)
  have "generatePDF_enter initial = initial"
    using empty empty_list_starts_nothing [of quiet_env initial] by blast
  moreover have "isGenerating initial = False" "running initial = 0"
    by (simp_all add: initial_def)
  ultimately show ?thesis
    using empty empty_list_starts_nothing [of quiet_env initial] by simp
qed

section \<open>Properties of the session\<close>

lemma step_keeps_gate:
  assumes "running s \<le> 1 \<and> (isGenerating s \<longleftrightarrow> running s = 1)"
  shows "running (step s ev) \<le> 1 \<and> (isGenerating (step s ev) \<longleftrightarrow> running (step s ev) = 1)"
proof (cases ev)
  case PressGenerate
  then show ?thesis
    using assms by (auto simp: generateButton_def generatePDF_enter_def split: if_splits)
next
  case RunSettles
  then show ?thesis
    using assms by (auto simp: generatePDF_leave_def)
next
  case (SetImages imgs)
  then show ?thesis
    using assms by simp
qed

lemma steps_keep_gate:
  "running s \<le> 1 \<and> (isGenerating s \<longleftrightarrow> running s = 1) \<Longrightarrow>
     running (foldl step s evs) \<le> 1
     \<and> (isGenerating (foldl step s evs) \<longleftrightarrow> running (foldl step s evs) = 1)"
proof (induction evs arbitrary: s)
  case Nil
  then show ?case by simp
next
  case (Cons ev evs)
  have "running (step s ev) \<le> 1 \<and> (isGenerating (step s ev) \<longleftrightarrow> running (step s ev) = 1)"
    using Cons.prems by (rule step_keeps_gate)
  then show ?case
    using Cons.IH [of "step s ev"] by simp
qed

text \<open>
  C3 fails as it is stated: \<^verbatim>\<open>generatePDF\<close> called while a run is in flight is not rejected.
  It starts a second run, which reads, prints and announces success.
\<close>

theorem second_call_counterexample:
  "isGenerating \<lparr> images = [photo ''1-0'' ''a.jpg'' 800 600], isGenerating = True, running = 1 \<rparr>
   \<and> generatePDF_enter
       \<lparr> images = [photo ''1-0'' ''a.jpg'' 800 600], isGenerating = True, running = 1 \<rparr>
     = \<lparr> images = [photo ''1-0'' ''a.jpg'' 800 600], isGenerating = True, running = 2 \<rparr>
   \<and> generatePDF quiet_env [photo ''1-0'' ''a.jpg'' 800 600] =
       [SetIsGenerating True, ReadAsStringAsync ''a.jpg'',
        PrintToFileAsync
          [\<lparr> pageBreak = [], src = ''data:image/jpeg;base64,QUJD'', box = fit 800 600 \<rparr>],
        IsAvailableAsync, Alert ''Success'' ''PDF generated successfully!'',
        SetIsGenerating False]"
proof -
  have mime: "mimeType ''a.jpg'' = ''image/jpeg''"
    by (simp add: mimeType_def toLowerCase_def)
  have "generatePDF quiet_env [photo ''1-0'' ''a.jpg'' 800 600] =
       [SetIsGenerating True, ReadAsStringAsync ''a.jpg'',
        PrintToFileAsync
          [\<lparr> pageBreak = [], src = ''data:image/jpeg;base64,QUJD'', box = fit 800 600 \<rparr>],
        IsAvailableAsync, Alert ''Success'' ''PDF generated successfully!'',
        SetIsGenerating False]"
    by (simp add: generatePDF_def tryGenerate_def promiseAll_def encodeImage_def mime
        quiet_env_def photo_def imageHTML_def composePage_def saveByPlatform_def)
  then show ?thesis
    by (simp add: generatePDF_enter_def)
qed

text \<open>
  C3, amended. Through the interface at most one run is in flight, and the flag is set
  exactly while one is. While the flag is set the button is not enabled: a press then starts
  nothing, raises no error, queues nothing and leaves the session as it is, so the run in
  flight goes on as before. \<^verbatim>\<open>generatePDF\<close> itself does not look at the flag: called on a
  non-empty list it starts a run in every state.
\<close>

theorem button_gates_second_run:
  "running (foldl step initial evs) \<le> 1
   \<and> (isGenerating (foldl step initial evs) \<longleftrightarrow> running (foldl step initial evs) = 1)
   \<and> (isGenerating s \<longrightarrow> generateButton s \<noteq> Enabled \<and> step s PressGenerate = s)
   \<and> (images s \<noteq> [] \<longrightarrow>
        running (generatePDF_enter s) = running s + 1 \<and> isGenerating (generatePDF_enter s))"
proof -
  have "running initial \<le> 1 \<and> (isGenerating initial \<longleftrightarrow> running initial = 1)"
    by (simp add: initial_def)
  then have reach: "running (foldl step initial evs) \<le> 1
      \<and> (isGenerating (foldl step initial evs) \<longleftrightarrow> running (foldl step initial evs) = 1)"
    by (rule steps_keep_gate)
  have gate: "isGenerating s \<longrightarrow> generateButton s \<noteq> Enabled \<and> step s PressGenerate = s"
    by (simp add: generateButton_def)
  have direct: "images s \<noteq> [] \<longrightarrow>
      running (generatePDF_enter s) = running s + 1 \<and> isGenerating (generatePDF_enter s)"
    by (simp add: generatePDF_enter_def)
  show ?thesis
    using reach gate direct by blast
qed

theorem button_gates_second_run_witness:
  "isGenerating (foldl step initial [SetImages [photo ''1-0'' ''a.jpg'' 800 600], PressGenerate])
   \<and> images (foldl step initial [SetImages [photo ''1-0'' ''a.jpg'' 800 600], PressGenerate])
       \<noteq> []
   \<and> running (foldl step initial [SetImages [photo ''1-0'' ''a.jpg'' 800 600], PressGenerate]) = 1
   \<and> step (foldl step initial [SetImages [photo ''1-0'' ''a.jpg'' 800 600], PressGenerate])
        PressGenerate
       = foldl step initial [SetImages [photo ''1-0'' ''a.jpg'' 800 600], PressGenerate]
   \<and> running (generatePDF_enter
        (foldl step initial [SetImages [photo ''1-0'' ''a.jpg'' 800 600], PressGenerate])) = 2"
proof -
  let ?evs = "[SetImages [photo ''1-0'' ''a.jpg'' 800 600], PressGenerate]"
  let ?s = "foldl step initial ?evs"
  note t = button_gates_second_run [of ?evs ?s]
  have flag: "isGenerating ?s"
    by (simp add: initial_def generateButton_def generatePDF_enter_def)
  have imgs: "images ?s \<noteq> []"
    by (simp add: initial_def generateButton_def generatePDF_enter_def)
  have one: "running ?s = 1"
    using t flag by blast
  have press: "step ?s PressGenerate = ?s"
    using t flag by blast
  have "running (generatePDF_enter ?s) = running ?s + 1"
    using t imgs by blast
  then have "running (generatePDF_enter ?s) = 2"
    using one by simp
  then show ?thesis
    using flag imgs one press by blast
qed

end
